theory Spec2Isabelle
  imports Main "HOL-Library.AList" "HOL-Library.Multiset"
begin

section \<open>The chat server of main.go: data model\<close>

text \<open>
  The development embeds the function \<open>server\<close> of main.go: the single goroutine that
  receives every \<open>Message\<close> from the channel and owns the two maps \<open>clients\<close> and
  \<open>bannedClients\<close>. One iteration of its \<open>for\<close> loop is the function \<open>server_step\<close>;
  the loop over a finite prefix of the channel's messages is \<open>server\<close>.

  A \<open>net.Conn\<close> is an interface value. The server only calls \<open>RemoteAddr().String()\<close>,
  \<open>Write\<close> and \<open>Close\<close> on it, so a connection is an identity together with the string
  of its remote address; the calls to \<open>Write\<close>, \<open>Close\<close> and \<open>log.Printf\<close> are
  collected, in program order, in the list of effects that a step returns.
\<close>

type_synonym addr = string

record conn =
  conn_id :: nat
  RemoteAddr :: addr

datatype MessageType = ClientConnected | ClientDisconnected | NewMessage

record Message =
  Type :: MessageType
  Conn :: conn
  Text :: string

subsection \<open>Time\<close>

text \<open>
  A \<open>time.Time\<close> is an instant, counted in nanoseconds from Go's zero time
  (0001-01-01 00:00:00 UTC), which is the value of a \<open>LastMessage\<close> field that was never
  assigned. A \<open>time.Duration\<close> is an \<open>int64\<close> of nanoseconds, and \<open>Time.Sub\<close> saturates
  at \<open>minDuration\<close> and \<open>maxDuration\<close> instead of wrapping.

  \<open>time.Now()\<close> reads the system clock. A reading is an input of the model: the number
  of nanoseconds since the Unix epoch, a natural number (operating systems do not run
  their real-time clock before 1970), and \<open>Now\<close> places it on the time line by adding
  \<open>unixToInternal\<close>, the 62135596800 seconds between the zero time and the epoch. The
  monotonic reading that \<open>time.Now()\<close> also carries is not modelled separately:
  differences are taken on the one clock that is passed in.
\<close>

type_synonym time = int
type_synonym Duration = int

definition Second :: Duration where
  "Second = 1000000000"

definition minDuration :: Duration where
  "minDuration = - (2 ^ 63)"

definition maxDuration :: Duration where
  "maxDuration = 2 ^ 63 - 1"

definition zeroTime :: time where
  "zeroTime = 0"

definition unixToInternal :: int where
  "unixToInternal = 62135596800"

definition Now :: "nat \<Rightarrow> time" where
  "Now reading = unixToInternal * Second + int reading"

definition Sub :: "time \<Rightarrow> time \<Rightarrow> Duration" where
  "Sub t u = (if t - u < minDuration then minDuration
              else if maxDuration < t - u then maxDuration
              else t - u)"

text \<open>
  The two constants are \<open>float64\<close> seconds in the source and are compared with
  \<open>passedTime.Seconds()\<close>, which is \<open>float64(d / Second) + float64(d % Second) / 1e9\<close>.
  The whole seconds are exact in \<open>float64\<close> and the fraction stays strictly below one,
  so \<open>d.Seconds() >= 5.0\<close> holds exactly when \<open>d\<close> is at least five seconds as an
  integer number of nanoseconds, and \<open>d.Seconds() < 1.0\<close> exactly when \<open>d\<close> is below
  one second. The model keeps the constants in seconds and compares nanoseconds.
\<close>

definition TimeoutDuration :: int where
  "TimeoutDuration = 5"

definition MessageDebounce :: int where
  "MessageDebounce = 1"

subsection \<open>Clients, state and effects\<close>

text \<open>
  \<open>Strikes\<close> is a Go \<open>int\<close> (64 bits on the platforms the server runs on): \<open>+= 1\<close>
  wraps, which \<open>wrap64\<close> writes out.
\<close>

record Client =
  ClientConn :: conn
  LastMessage :: time
  TimedOut :: bool
  Strikes :: int

definition wrap64 :: "int \<Rightarrow> int" where
  "wrap64 i = (i + 2 ^ 63) mod 2 ^ 64 - 2 ^ 63"

text \<open>
  \<open>clients\<close> is a \<open>map[string]*Client\<close>. It is an association list here, because the
  broadcast ranges over it: \<open>AList.update\<close> replaces the value of a key that is present
  and adds a key that is not, \<open>AList.delete\<close> is Go's \<open>delete\<close>, \<open>map_of\<close> the lookup
  (\<open>None\<close> for Go's \<open>nil\<close>). The order of the list has no meaning: a Go map has none,
  and the one place that walks the map, the \<open>range\<close> of the broadcast, visits the entries
  in an order of its own (see \<open>rangeOver\<close>). Every \<open>*Client\<close> is reachable from one key
  only, so the writes through the pointer are updates of that key. \<open>bannedClients\<close> is a
  \<open>map[string]bool\<close> of which only the presence of a key is ever tested.
\<close>

record state =
  clients :: "(addr \<times> Client) list"
  bannedClients :: "addr \<rightharpoonup> bool"

text \<open>
  What is written to a connection: a byte string, or the notice of the timeout stage,
  \<open>"You are timed out. Chill for " + Sprintf("%f", TimeoutDuration - passedTime.Seconds())
  + " Seconds"\<close>, whose number is kept as the exact remaining duration in nanoseconds
  rather than as the rendering of a \<open>float64\<close>.
\<close>

datatype bytes = Bytes string | Chill Duration

datatype effect = Write conn bytes | Close conn | Log string

subsection \<open>strconv.Itoa\<close>

definition digit :: "nat \<Rightarrow> char" where
  "digit n = ''0123456789'' ! n"

fun digits :: "nat \<Rightarrow> string" where
  "digits n = (if n < 10 then [digit n] else digits (n div 10) @ [digit (n mod 10)])"

definition Itoa :: "int \<Rightarrow> string" where
  "Itoa i = (if i < 0 then CHR ''-'' # digits (nat (- i)) else digits (nat i))"

section \<open>The server\<close>

definition initial :: state where
  "initial = \<lparr>clients = [], bannedClients = Map.empty\<rparr>"

subsection \<open>Ranging over a map\<close>

text \<open>
  \<open>for _, client := range clients\<close> visits every entry of the map once, in an order
  that Go leaves unspecified and that its runtime draws at random for each loop. That
  order is an input of the model, as the readings of the clock are: a list of picks.
  \<open>rangeOver\<close> visits the entries that are left one pick at a time (the pick is taken
  modulo their number) and, when the picks run out, the remaining entries as they
  stand. Whatever the picks, every entry is visited once (\<open>mset_rangeOver\<close> below),
  and every order of the entries is the result of some picks (\<open>rangeOver_any_order\<close>).
\<close>

function rangeOver :: "nat list \<Rightarrow> 'a list \<Rightarrow> 'a list" where
  "rangeOver picks [] = []"
| "rangeOver [] (x # xs) = x # xs"
| "rangeOver (p # picks) (x # xs) =
     (let i = p mod length (x # xs)
      in (x # xs) ! i # rangeOver picks (take i (x # xs) @ drop (Suc i) (x # xs)))"
  by pat_completeness auto
termination
  by (relation "measure (\<lambda>(picks, xs). length xs)") auto

text \<open>
  Lines 114 to 119: the broadcast stage. \<open>picks\<close> is the order in which the \<open>range\<close>
  at line 117 visits \<open>clients\<close>.
\<close>

definition broadcast :: "nat \<Rightarrow> nat list \<Rightarrow> state \<Rightarrow> addr \<Rightarrow> Client \<Rightarrow> string \<Rightarrow> state \<times> effect list" where
  "broadcast later picks s a client text =
     (let client' = client\<lparr>LastMessage := Now later\<rparr>;
          clients' = AList.update a client' (clients s)
      in (s\<lparr>clients := clients'\<rparr>,
          Log (''Info: send message '' @ text @ '' by '' @ a)
            # map (\<lambda>(k, c). Write (ClientConn c) (Bytes text)) (rangeOver picks clients')))"

text \<open>
  Lines 95 to 112: the debounce stage, entered with the client as the timeout stage left
  it and with the \<open>passedTime\<close> computed before the timeout stage. It falls through to
  the broadcast stage when the message is not too early.
\<close>

definition debounce :: "nat \<Rightarrow> nat list \<Rightarrow> state \<Rightarrow> addr \<Rightarrow> Client \<Rightarrow> Duration \<Rightarrow> string \<Rightarrow> state \<times> effect list" where
  "debounce later picks s a client passedTime text =
     (if passedTime < MessageDebounce * Second then
        (let client' = client\<lparr>Strikes := wrap64 (Strikes client + 1)\<rparr> in
         if 3 \<le> Strikes client' then
           (s\<lparr>clients := AList.delete a (clients s),
              bannedClients := (bannedClients s)(a \<mapsto> True)\<rparr>,
            [Write (ClientConn client') (Bytes ''you are banned. bye bye''),
             Close (ClientConn client')])
         else
           (s\<lparr>clients := AList.update a
                 (client'\<lparr>TimedOut := True, LastMessage := Now later\<rparr>) (clients s)\<rparr>,
            [Log (''Info: timeout client '' @ a @ '' for 5.000000. number strikes: ''
                    @ Itoa (Strikes client')),
             Write (ClientConn client')
               (Bytes (''Strike number '' @ Itoa (Strikes client')
                    @ ''. You are timed out. Wait for '' @ Itoa TimeoutDuration))]))
      else broadcast later picks s a client text)"

text \<open>
  Lines 70 to 93: the lookup of the client, the first reading of the clock and the
  timeout stage. \<open>reading\<close> is the clock at line 80, \<open>later\<close> the clock at line 109
  or 114, of which at most one is reached, and \<open>picks\<close> the order of the \<open>range\<close> at
  line 117.
\<close>

definition newMessage :: "nat \<Rightarrow> nat \<Rightarrow> nat list \<Rightarrow> state \<Rightarrow> Message \<Rightarrow> state \<times> effect list" where
  "newMessage reading later picks s message =
     (let a = RemoteAddr (Conn message) in
      case map_of (clients s) a of
        None \<Rightarrow>
          (s, [Close (Conn message),
               Log (''Error: client with address: '' @ a @ '' does not exist'')])
      | Some client \<Rightarrow>
          (let now = Now reading;
               passedTime = Sub now (LastMessage client)
           in if TimedOut client then
                if TimeoutDuration * Second \<le> passedTime then
                  (let (s', effects) =
                         debounce later picks s a (client\<lparr>TimedOut := False\<rparr>) passedTime (Text message)
                   in (s', Log (''Info: unban client '' @ a) # effects))
                else
                  (s, [Log (''Info: client '' @ a @ '' still banned''),
                       Write (ClientConn client)
                         (Chill (TimeoutDuration * Second - passedTime))])
              else debounce later picks s a client passedTime (Text message)))"

text \<open>Lines 48 to 120: the \<open>switch\<close> on the type of the message.\<close>

definition server_step :: "nat \<Rightarrow> nat \<Rightarrow> nat list \<Rightarrow> state \<Rightarrow> Message \<Rightarrow> state \<times> effect list" where
  "server_step reading later picks s message =
     (case Type message of
        ClientConnected \<Rightarrow>
          (let a = RemoteAddr (Conn message) in
           if bannedClients s a \<noteq> None then (s, [Close (Conn message)])
           else
             (s\<lparr>clients := AList.update a
                   \<lparr>ClientConn = Conn message, LastMessage = zeroTime,
                    TimedOut = False, Strikes = 0\<rparr> (clients s)\<rparr>,
              [Write (Conn message) (Bytes ''Welcome to the box''),
               Log (''Client '' @ a @ '' connected'')]))
      | ClientDisconnected \<Rightarrow>
          (let a = RemoteAddr (Conn message) in
           (s\<lparr>clients := AList.delete a (clients s)\<rparr>,
            [Log (''Client '' @ a @ '' disconnected'')]))
      | NewMessage \<Rightarrow> newMessage reading later picks s message)"

text \<open>
  Lines 45 to 121: the loop, on the messages received so far, each with the two readings
  of the clock that its processing may take and with the order in which a broadcast of
  it would range over the clients.
\<close>

fun server :: "state \<Rightarrow> (nat \<times> nat \<times> nat list \<times> Message) list \<Rightarrow> state" where
  "server s [] = s"
| "server s ((reading, later, picks, message) # rest) =
     server (fst (server_step reading later picks s message)) rest"

section \<open>Observing a run\<close>

text \<open>
  Two observers of a run, which are not code of the server. \<open>timedOutAt\<close> says whether
  an address has a client that is serving a timeout. \<open>timeoutBegan\<close> follows a run and
  remembers, for one address, the clock of the last message that put its client into a
  timeout: the reading taken at line 109 by the message after which the client is timed
  out and before which it was not.
\<close>

definition timedOutAt :: "state \<Rightarrow> addr \<Rightarrow> bool" where
  "timedOutAt s a = (case map_of (clients s) a of None \<Rightarrow> False | Some c \<Rightarrow> TimedOut c)"

fun timeoutBegan :: "addr \<Rightarrow> state \<Rightarrow> time option \<Rightarrow> (nat \<times> nat \<times> nat list \<times> Message) list \<Rightarrow> time option" where
  "timeoutBegan a s began [] = began"
| "timeoutBegan a s began ((reading, later, picks, message) # rest) =
     (let s' = fst (server_step reading later picks s message)
      in timeoutBegan a s'
           (if timedOutAt s' a \<and> \<not> timedOutAt s a then Some (Now later) else began) rest)"

subsection \<open>A session with two clients\<close>

text \<open>
  Alice and Bob connect; Alice then sends too fast three times, with a pause of more than
  \<open>TimeoutDuration\<close> after each strike. The clock is read in milliseconds after a
  start in November 2023, both readings of a message are the same instant, and a
  broadcast ranges over the clients as they are listed (no picks).
\<close>

definition alice :: conn where
  "alice = \<lparr>conn_id = 1, RemoteAddr = ''10.0.0.7:50412''\<rparr>"

definition bob :: conn where
  "bob = \<lparr>conn_id = 2, RemoteAddr = ''10.0.0.9:50977''\<rparr>"

definition connects :: "conn \<Rightarrow> Message" where
  "connects c = \<lparr>Type = ClientConnected, Conn = c, Text = []\<rparr>"

definition leaves :: "conn \<Rightarrow> Message" where
  "leaves c = \<lparr>Type = ClientDisconnected, Conn = c, Text = []\<rparr>"

definition says :: "conn \<Rightarrow> string \<Rightarrow> Message" where
  "says c text = \<lparr>Type = NewMessage, Conn = c, Text = text\<rparr>"

definition clock :: "nat \<Rightarrow> nat" where
  "clock ms = 1700000000000000000 + ms * 1000000"

definition at :: "nat \<Rightarrow> Message \<Rightarrow> nat \<times> nat \<times> nat list \<times> Message" where
  "at ms message = (clock ms, clock ms, [], message)"

definition member :: "conn \<Rightarrow> nat \<Rightarrow> bool \<Rightarrow> int \<Rightarrow> addr \<times> Client" where
  "member c ms flag n =
     (RemoteAddr c, \<lparr>ClientConn = c, LastMessage = Now (clock ms), TimedOut = flag, Strikes = n\<rparr>)"

definition newcomer :: "conn \<Rightarrow> addr \<times> Client" where
  "newcomer c =
     (RemoteAddr c, \<lparr>ClientConn = c, LastMessage = zeroTime, TimedOut = False, Strikes = 0\<rparr>)"

definition lobby :: "(nat \<times> nat \<times> nat list \<times> Message) list" where
  "lobby = [at 0 (connects alice), at 10 (connects bob), at 1000 (says alice ''hi'')]"

definition strike_one :: "(nat \<times> nat \<times> nat list \<times> Message) list" where
  "strike_one = lobby @ [at 1200 (says alice ''yo'')]"

definition calm_one :: "(nat \<times> nat \<times> nat list \<times> Message) list" where
  "calm_one = strike_one @ [at 1500 (says alice ''again''), at 7000 (says alice ''final'')]"

definition strike_two :: "(nat \<times> nat \<times> nat list \<times> Message) list" where
  "strike_two = calm_one @ [at 7300 (says alice ''more'')]"

definition calm_two :: "(nat \<times> nat \<times> nat list \<times> Message) list" where
  "calm_two = strike_two @ [at 13000 (says alice ''calm'')]"

definition strike_three :: "(nat \<times> nat \<times> nat list \<times> Message) list" where
  "strike_three = calm_two @ [at 13400 (says alice ''last'')]"

section \<open>Facts about one step and about runs\<close>

subsection \<open>The clock\<close>

lemma Sub_Now_zeroTime: "Sub (Now reading) zeroTime = maxDuration"
  by (simp add: Sub_def Now_def zeroTime_def unixToInternal_def Second_def
      minDuration_def maxDuration_def)

lemma maxDuration_not_early: "\<not> maxDuration < MessageDebounce * Second"
  by (simp add: maxDuration_def MessageDebounce_def Second_def)

lemma not_late_and_early:
  "TimeoutDuration * Second \<le> p \<Longrightarrow> \<not> p < MessageDebounce * Second"
  by (simp add: TimeoutDuration_def MessageDebounce_def Second_def)

subsection \<open>The range visits every entry once, in any order\<close>

lemma mset_without:
  "i < length xs \<Longrightarrow> add_mset (xs ! i) (mset (take i xs @ drop (Suc i) xs)) = mset xs"
  by (metis Cons_nth_drop_Suc append_take_drop_id mset.simps(2) mset_append
      union_mset_add_mset_right)

lemma mset_rangeOver: "mset (rangeOver picks xs) = mset xs"
proof (induction picks xs rule: rangeOver.induct)
  case (3 p picks x xs)
  let ?l = "x # xs"
  let ?i = "p mod length ?l"
  have i: "?i < length ?l" by simp
  from "3.IH"[OF refl] have "mset (rangeOver picks (take ?i ?l @ drop (Suc ?i) ?l))
      = mset (take ?i ?l @ drop (Suc ?i) ?l)" .
  then have "mset (rangeOver (p # picks) ?l)
      = add_mset (?l ! ?i) (mset (take ?i ?l @ drop (Suc ?i) ?l))"
    by (simp add: Let_def del: mset_append)
  also have "\<dots> = mset ?l" using i by (rule mset_without)
  finally show ?case .
qed simp_all

lemma set_rangeOver: "set (rangeOver picks xs) = set xs"
  by (metis mset_rangeOver set_mset_mset)

lemma rangeOver_any_order:
  "mset ys = mset xs \<Longrightarrow> \<exists>picks. rangeOver picks xs = ys"
proof (induction ys arbitrary: xs)
  case Nil
  then show ?case by simp
next
  case (Cons y ys)
  then have "y \<in> set xs" by (metis list.set_intros(1) set_mset_mset)
  then obtain i where i: "i < length xs" "xs ! i = y" by (auto simp: in_set_conv_nth)
  let ?rest = "take i xs @ drop (Suc i) xs"
  from i have "add_mset y (mset ?rest) = mset xs" using mset_without[of i xs] by simp
  with Cons.prems have "add_mset y (mset ys) = add_mset y (mset ?rest)"
    by (simp del: mset_append)
  then have "mset ys = mset ?rest"
    by simp
  from Cons.IH[OF this] obtain picks where picks: "rangeOver picks ?rest = ys" by blast
  from i obtain x xs' where xs: "xs = x # xs'" by (cases xs) auto
  have "rangeOver (i # picks) (x # xs') = y # ys"
    using i picks unfolding xs by (simp add: Let_def)
  then show ?case unfolding xs by blast
qed

subsection \<open>The branches of a step\<close>

lemma step_known:
  assumes "Type message = NewMessage"
    and "map_of (clients s) (RemoteAddr (Conn message)) = Some client"
  shows "server_step reading later picks s message =
    (if TimedOut client \<and> Sub (Now reading) (LastMessage client) < TimeoutDuration * Second
     then (s, [Log (''Info: client '' @ RemoteAddr (Conn message) @ '' still banned''),
               Write (ClientConn client)
                 (Chill (TimeoutDuration * Second - Sub (Now reading) (LastMessage client)))])
     else if TimedOut client
     then (fst (debounce later picks s (RemoteAddr (Conn message)) (client\<lparr>TimedOut := False\<rparr>)
                  (Sub (Now reading) (LastMessage client)) (Text message)),
           Log (''Info: unban client '' @ RemoteAddr (Conn message))
             # snd (debounce later picks s (RemoteAddr (Conn message)) (client\<lparr>TimedOut := False\<rparr>)
                  (Sub (Now reading) (LastMessage client)) (Text message)))
     else debounce later picks s (RemoteAddr (Conn message)) client
            (Sub (Now reading) (LastMessage client)) (Text message))"
  using assms by (simp add: server_step_def newMessage_def Let_def case_prod_beta)

lemma step_unknown:
  assumes "Type message = NewMessage"
    and "map_of (clients s) (RemoteAddr (Conn message)) = None"
  shows "server_step reading later picks s message =
           (s, [Close (Conn message),
                Log (''Error: client with address: '' @ RemoteAddr (Conn message)
                       @ '' does not exist'')])"
  using assms by (simp add: server_step_def newMessage_def Let_def)

lemma step_connected:
  "Type m = ClientConnected \<Longrightarrow> RemoteAddr (Conn m) \<notin> dom (bannedClients s) \<Longrightarrow>
   server_step reading later picks s m =
     (s\<lparr>clients := AList.update (RemoteAddr (Conn m))
           \<lparr>ClientConn = Conn m, LastMessage = zeroTime, TimedOut = False, Strikes = 0\<rparr>
           (clients s)\<rparr>,
      [Write (Conn m) (Bytes ''Welcome to the box''),
       Log (''Client '' @ RemoteAddr (Conn m) @ '' connected'')])"
  by (auto simp: server_step_def Let_def)

lemma step_refused:
  "Type m = ClientConnected \<Longrightarrow> RemoteAddr (Conn m) \<in> dom (bannedClients s) \<Longrightarrow>
   server_step reading later picks s m = (s, [Close (Conn m)])"
  by (auto simp: server_step_def Let_def)

lemma step_disconnected:
  "Type m = ClientDisconnected \<Longrightarrow>
   server_step reading later picks s m =
     (s\<lparr>clients := AList.delete (RemoteAddr (Conn m)) (clients s)\<rparr>,
      [Log (''Client '' @ RemoteAddr (Conn m) @ '' disconnected'')])"
  by (simp add: server_step_def Let_def)

lemma debounce_same:
  "map_of (clients (fst (debounce later picks s a c p t))) a =
     (if p < MessageDebounce * Second
      then if 3 \<le> wrap64 (Strikes c + 1) then None
           else Some (c\<lparr>Strikes := wrap64 (Strikes c + 1), TimedOut := True,
                        LastMessage := Now later\<rparr>)
      else Some (c\<lparr>LastMessage := Now later\<rparr>))"
  by (simp add: debounce_def broadcast_def Let_def update_conv' delete_conv')

lemma debounce_other:
  "b \<noteq> a \<Longrightarrow> map_of (clients (fst (debounce later picks s a c p t))) b = map_of (clients s) b"
  by (simp add: debounce_def broadcast_def Let_def update_conv' delete_conv')

lemma step_other:
  "RemoteAddr (Conn m) \<noteq> b \<Longrightarrow>
   map_of (clients (fst (server_step reading later picks s m))) b = map_of (clients s) b"
  by (cases "Type m")
     (auto simp: server_step_def newMessage_def Let_def update_conv' delete_conv'
        case_prod_beta debounce_other split: option.splits)

lemma server_other:
  "\<forall>(reading, later, picks, m) \<in> set events. RemoteAddr (Conn m) \<noteq> b \<Longrightarrow>
   map_of (clients (server s events)) b = map_of (clients s) b"
  by (induction s events rule: server.induct) (simp_all add: step_other)

lemma server_append: "server s (xs @ ys) = server (server s xs) ys"
  by (induction s xs rule: server.induct) simp_all

subsection \<open>The ban list only grows\<close>

lemma banned_debounce:
  "b \<in> dom (bannedClients s) \<Longrightarrow> b \<in> dom (bannedClients (fst (debounce later picks s a c p t)))"
  by (auto simp add: debounce_def broadcast_def Let_def)

lemma banned_newMessage:
  "b \<in> dom (bannedClients s) \<Longrightarrow> b \<in> dom (bannedClients (fst (newMessage reading later picks s m)))"
  by (simp add: newMessage_def Let_def banned_debounce case_prod_beta split: option.splits)

lemma banned_step:
  "b \<in> dom (bannedClients s) \<Longrightarrow> b \<in> dom (bannedClients (fst (server_step reading later picks s m)))"
  by (cases "Type m") (simp_all add: server_step_def Let_def banned_newMessage)

lemma banned_server:
  "b \<in> dom (bannedClients s) \<Longrightarrow> b \<in> dom (bannedClients (server s events))"
  by (induction s events rule: server.induct) (simp_all add: banned_step)

subsection \<open>The session, evaluated\<close>

lemmas session_defs = alice_def bob_def connects_def leaves_def says_def clock_def at_def
  member_def newcomer_def

lemmas step_defs = server_step_def newMessage_def debounce_def broadcast_def Let_def
  Now_def Sub_def Second_def unixToInternal_def zeroTime_def minDuration_def maxDuration_def
  TimeoutDuration_def MessageDebounce_def wrap64_def Itoa_def digit_def

lemma after_lobby:
  "server initial lobby =
     \<lparr>clients = [member alice 1000 False 0, newcomer bob], bannedClients = Map.empty\<rparr>"
  by (simp add: lobby_def initial_def session_defs step_defs)

lemma after_strike_one:
  "server initial strike_one =
     \<lparr>clients = [member alice 1200 True 1, newcomer bob], bannedClients = Map.empty\<rparr>"
  by (simp add: strike_one_def server_append after_lobby session_defs step_defs)

lemma after_calm_one:
  "server initial calm_one =
     \<lparr>clients = [member alice 7000 False 1, newcomer bob], bannedClients = Map.empty\<rparr>"
  by (simp add: calm_one_def server_append after_strike_one session_defs step_defs)

lemma after_strike_two:
  "server initial strike_two =
     \<lparr>clients = [member alice 7300 True 2, newcomer bob], bannedClients = Map.empty\<rparr>"
  by (simp add: strike_two_def server_append after_calm_one session_defs step_defs)

lemma after_calm_two:
  "server initial calm_two =
     \<lparr>clients = [member alice 13000 False 2, newcomer bob], bannedClients = Map.empty\<rparr>"
  by (simp add: calm_two_def server_append after_strike_two session_defs step_defs)

lemma after_strike_three:
  "server initial strike_three =
     \<lparr>clients = [newcomer bob], bannedClients = [RemoteAddr alice \<mapsto> True]\<rparr>"
  by (simp add: strike_three_def server_append after_calm_two session_defs step_defs)

section \<open>The claims\<close>

text \<open>
  C1: an address that is in \<open>bannedClients\<close> is still there after any further messages,
  and a \<open>ClientConnected\<close> message from that address then only closes the connection:
  the state is returned as it was, with no client created.
\<close>

theorem banned_is_absorbing:
  assumes "a \<in> dom (bannedClients s)"
    and "Type message = ClientConnected"
    and "RemoteAddr (Conn message) = a"
  shows "a \<in> dom (bannedClients (server s events))
       \<and> server_step reading later picks (server s events) message =
           (server s events, [Close (Conn message)])"
proof -
  have "a \<in> dom (bannedClients (server s events))"
    using assms(1) by (rule banned_server)
  then show ?thesis
    using assms(2,3) by (simp add: step_refused)
qed

theorem banned_is_absorbing_witness:
  "RemoteAddr alice \<in> dom (bannedClients (server initial strike_three))
   \<and> Type (connects alice) = ClientConnected
   \<and> RemoteAddr (Conn (connects alice)) = RemoteAddr alice
   \<and> RemoteAddr alice
        \<in> dom (bannedClients (server (server initial strike_three) [at 20000 (says bob ''hello'')]))
   \<and> server_step (clock 21000) (clock 21000) []
        (server (server initial strike_three) [at 20000 (says bob ''hello'')]) (connects alice) =
      (\<lparr>clients = [member bob 20000 False 0], bannedClients = [RemoteAddr alice \<mapsto> True]\<rparr>,
       [Close alice])"
proof -
  have banned: "RemoteAddr alice \<in> dom (bannedClients (server initial strike_three))"
    by (simp add: after_strike_three)
  have kind: "Type (connects alice) = ClientConnected"
    and from_alice: "RemoteAddr (Conn (connects alice)) = RemoteAddr alice"
    by (simp_all add: connects_def)
  have later_on: "server (server initial strike_three) [at 20000 (says bob ''hello'')] =
      \<lparr>clients = [member bob 20000 False 0], bannedClients = [RemoteAddr alice \<mapsto> True]\<rparr>"
    by (simp add: after_strike_three session_defs step_defs)
  from banned_is_absorbing [OF banned kind from_alice,
      of "[at 20000 (says bob ''hello'')]" "clock 21000" "clock 21000" "[]"]
  show ?thesis
    using banned kind from_alice by (simp add: later_on connects_def)
qed



text \<open>
  C9: \<open>ClientDisconnected\<close> deletes the client of the connection's address and only
  logs; with no such client the state is returned as it was. Afterwards the address has
  no client, and a \<open>NewMessage\<close> from a connection with that address takes the
  unknown-client branch: that connection is closed, the error is logged, and the state
  is unchanged.
\<close>

theorem disconnect_cleanup:
  assumes "Type gone = ClientDisconnected"
    and "Type message = NewMessage"
    and "RemoteAddr (Conn message) = RemoteAddr (Conn gone)"
    and "s' = fst (server_step reading later picks s gone)"
  shows "s' = s\<lparr>clients := AList.delete (RemoteAddr (Conn gone)) (clients s)\<rparr>
       \<and> snd (server_step reading later picks s gone) =
           [Log (''Client '' @ RemoteAddr (Conn gone) @ '' disconnected'')]
       \<and> (map_of (clients s) (RemoteAddr (Conn gone)) = None \<longrightarrow> s' = s)
       \<and> map_of (clients s') (RemoteAddr (Conn gone)) = None
       \<and> server_step reading' later' picks' s' message =
           (s', [Close (Conn message),
                 Log (''Error: client with address: '' @ RemoteAddr (Conn message)
                        @ '' does not exist'')])"
proof -
  let ?a = "RemoteAddr (Conn gone)"
  have s': "s' = s\<lparr>clients := AList.delete ?a (clients s)\<rparr>"
    using assms(1,4) by (simp add: step_disconnected)
  have logged: "snd (server_step reading later picks s gone) =
           [Log (''Client '' @ ?a @ '' disconnected'')]"
    using assms(1) by (simp add: step_disconnected)
  have absent: "map_of (clients s') ?a = None"
    by (simp add: s' delete_conv')
  have noop: "s' = s" if "map_of (clients s) ?a = None"
  proof -
    from that have "?a \<notin> fst ` set (clients s)"
      by (simp add: map_of_eq_None_iff)
    then show ?thesis by (simp add: s')
  qed
  have "server_step reading' later' picks' s' message =
           (s', [Close (Conn message),
                 Log (''Error: client with address: '' @ RemoteAddr (Conn message)
                        @ '' does not exist'')])"
    using absent assms(2,3) by (simp add: step_unknown)
  with s' logged absent noop show ?thesis by blast
qed

theorem disconnect_cleanup_witness:
  "Type (leaves alice) = ClientDisconnected
   \<and> Type (says alice ''anyone'') = NewMessage
   \<and> RemoteAddr (Conn (says alice ''anyone'')) = RemoteAddr (Conn (leaves alice))
   \<and> fst (server_step (clock 2000) (clock 2000) [] (server initial lobby) (leaves alice))
       = \<lparr>clients = [newcomer bob], bannedClients = Map.empty\<rparr>
   \<and> server_step (clock 3000) (clock 3000) []
        \<lparr>clients = [newcomer bob], bannedClients = Map.empty\<rparr> (says alice ''anyone'') =
       (\<lparr>clients = [newcomer bob], bannedClients = Map.empty\<rparr>,
        [Close alice, Log ''Error: client with address: 10.0.0.7:50412 does not exist''])
   \<and> map_of (clients (server initial strike_three)) (RemoteAddr (Conn (leaves alice))) = None
   \<and> fst (server_step (clock 14000) (clock 14000) [] (server initial strike_three) (leaves alice))
       = server initial strike_three"
proof -
  let ?left = "\<lparr>clients = [newcomer bob], bannedClients = Map.empty\<rparr>"
  have kind: "Type (leaves alice) = ClientDisconnected"
    and kind': "Type (says alice ''anyone'') = NewMessage"
    and same: "RemoteAddr (Conn (says alice ''anyone'')) = RemoteAddr (Conn (leaves alice))"
    by (simp_all add: leaves_def says_def)
  have left: "?left = fst (server_step (clock 2000) (clock 2000) [] (server initial lobby) (leaves alice))"
    by (simp add: after_lobby session_defs step_defs)
  have refl: "fst (server_step (clock 14000) (clock 14000) [] (server initial strike_three) (leaves alice))
      = fst (server_step (clock 14000) (clock 14000) [] (server initial strike_three) (leaves alice))"
    by (rule refl)
  have absent: "map_of (clients (server initial strike_three)) (RemoteAddr (Conn (leaves alice))) = None"
    by (simp add: after_strike_three session_defs)
  note present_case = disconnect_cleanup [OF kind kind' same left, of "clock 3000" "clock 3000" "[]"]
  note absent_case = disconnect_cleanup [OF kind kind' same refl [symmetric]]
  from present_case
  have "server_step (clock 3000) (clock 3000) [] ?left (says alice ''anyone'') =
       (?left, [Close (Conn (says alice ''anyone'')),
                Log (''Error: client with address: '' @ RemoteAddr (Conn (says alice ''anyone''))
                       @ '' does not exist'')])"
    by blast
  then have unknown: "server_step (clock 3000) (clock 3000) [] ?left (says alice ''anyone'') =
       (?left, [Close alice, Log ''Error: client with address: 10.0.0.7:50412 does not exist''])"
    by (simp add: says_def alice_def)
  from absent_case absent
  have noop: "fst (server_step (clock 14000) (clock 14000) [] (server initial strike_three) (leaves alice))
       = server initial strike_three"
    by blast
  from kind kind' same left [symmetric] unknown absent noop show ?thesis by blast
qed

text \<open>
  C3: a message from a client that is timed out, read \<open>TimeoutDuration\<close> or more after
  its \<open>LastMessage\<close>, clears the flag and is then handed, in the same step and with the
  same passed time, to the debounce stage; when the passed time is at least
  \<open>MessageDebounce\<close> the step is the broadcast: the time stamp is set and the text is
  written to every client, once each, in the order in which the \<open>range\<close> visits them.
\<close>

theorem timeout_expiry_reprocesses:
  assumes "Type message = NewMessage"
    and "RemoteAddr (Conn message) = a"
    and "map_of (clients s) a = Some client"
    and "TimedOut client"
    and "passedTime = Sub (Now reading) (LastMessage client)"
    and "TimeoutDuration * Second \<le> passedTime"
  shows "server_step reading later picks s message =
           (let (s', effects) =
                  debounce later picks s a (client\<lparr>TimedOut := False\<rparr>) passedTime (Text message)
            in (s', Log (''Info: unban client '' @ a) # effects))
       \<and> (MessageDebounce * Second \<le> passedTime \<longrightarrow>
            server_step reading later picks s message =
              (let clients' = AList.update a
                     (client\<lparr>TimedOut := False, LastMessage := Now later\<rparr>) (clients s)
               in (s\<lparr>clients := clients'\<rparr>,
                   Log (''Info: unban client '' @ a)
                     # Log (''Info: send message '' @ Text message @ '' by '' @ a)
                     # map (\<lambda>(k, c). Write (ClientConn c) (Bytes (Text message)))
                         (rangeOver picks clients')))
             \<and> mset (rangeOver picks (AList.update a
                     (client\<lparr>TimedOut := False, LastMessage := Now later\<rparr>) (clients s)))
                 = mset (AList.update a
                     (client\<lparr>TimedOut := False, LastMessage := Now later\<rparr>) (clients s)))"
  using assms
  by (simp add: step_known case_prod_beta debounce_def broadcast_def Let_def mset_rangeOver)

theorem timeout_expiry_reprocesses_witness:
  "Type (says alice ''final'') = NewMessage
   \<and> RemoteAddr (Conn (says alice ''final'')) = RemoteAddr alice
   \<and> map_of (clients (server initial strike_one)) (RemoteAddr alice)
       = Some (snd (member alice 1200 True 1))
   \<and> TimedOut (snd (member alice 1200 True 1))
   \<and> 5800000000 = Sub (Now (clock 7000)) (LastMessage (snd (member alice 1200 True 1)))
   \<and> TimeoutDuration * Second \<le> 5800000000
   \<and> MessageDebounce * Second \<le> 5800000000
   \<and> server_step (clock 7000) (clock 7001) [1] (server initial strike_one) (says alice ''final'') =
       (\<lparr>clients = [member alice 7001 False 1, newcomer bob], bannedClients = Map.empty\<rparr>,
        [Log ''Info: unban client 10.0.0.7:50412'',
         Log ''Info: send message final by 10.0.0.7:50412'',
         Write bob (Bytes ''final''), Write alice (Bytes ''final'')])"
proof -
  have kind: "Type (says alice ''final'') = NewMessage"
    and sender: "RemoteAddr (Conn (says alice ''final'')) = RemoteAddr alice"
    by (simp_all add: says_def)
  have known: "map_of (clients (server initial strike_one)) (RemoteAddr alice)
       = Some (snd (member alice 1200 True 1))"
    by (simp add: after_strike_one session_defs)
  have flag: "TimedOut (snd (member alice 1200 True 1))"
    by (simp add: member_def)
  have passed: "5800000000 = Sub (Now (clock 7000)) (LastMessage (snd (member alice 1200 True 1)))"
    by (simp add: session_defs step_defs)
  have expired: "TimeoutDuration * Second \<le> 5800000000"
    and spaced: "MessageDebounce * Second \<le> 5800000000"
    by (simp_all add: TimeoutDuration_def MessageDebounce_def Second_def)
  from timeout_expiry_reprocesses [OF kind sender known flag passed expired, of "clock 7001" "[1]"] spaced
  have "server_step (clock 7000) (clock 7001) [1] (server initial strike_one) (says alice ''final'') =
      (let clients' = AList.update (RemoteAddr alice)
             ((snd (member alice 1200 True 1))\<lparr>TimedOut := False, LastMessage := Now (clock 7001)\<rparr>)
             (clients (server initial strike_one))
       in (server initial strike_one\<lparr>clients := clients'\<rparr>,
           Log (''Info: unban client '' @ RemoteAddr alice)
             # Log (''Info: send message '' @ Text (says alice ''final'') @ '' by '' @ RemoteAddr alice)
             # map (\<lambda>(k, c). Write (ClientConn c) (Bytes (Text (says alice ''final''))))
                 (rangeOver [1] clients')))"
    by blast
  then have "server_step (clock 7000) (clock 7001) [1] (server initial strike_one) (says alice ''final'') =
       (\<lparr>clients = [member alice 7001 False 1, newcomer bob], bannedClients = Map.empty\<rparr>,
        [Log ''Info: unban client 10.0.0.7:50412'',
         Log ''Info: send message final by 10.0.0.7:50412'',
         Write bob (Bytes ''final''), Write alice (Bytes ''final'')])"
    by (simp add: after_strike_one session_defs Let_def)
  with kind sender known flag passed expired spaced show ?thesis by blast
qed

text \<open>
  C5: after \<open>ClientConnected\<close> from an address that is not banned, and after any
  messages of other addresses, the first \<open>NewMessage\<close> of the new client is the broadcast
  stage applied to the client as it was created, whatever the two readings of the clock
  and the order of the \<open>range\<close> are: the passed time since the zero time stamp is \<open>maxDuration\<close>, which is not below
  \<open>MessageDebounce\<close>.
\<close>

theorem first_message_accepted:
  assumes "Type connected = ClientConnected"
    and "RemoteAddr (Conn connected) \<notin> dom (bannedClients s)"
    and "\<forall>(r, l, p, m) \<in> set others. RemoteAddr (Conn m) \<noteq> RemoteAddr (Conn connected)"
    and "s' = server (fst (server_step reading' later' picks' s connected)) others"
    and "Type message = NewMessage"
    and "RemoteAddr (Conn message) = RemoteAddr (Conn connected)"
  shows "server_step reading later picks s' message =
           broadcast later picks s' (RemoteAddr (Conn connected))
             \<lparr>ClientConn = Conn connected, LastMessage = zeroTime,
              TimedOut = False, Strikes = 0\<rparr> (Text message)
       \<and> map_of (clients (fst (server_step reading later picks s' message))) (RemoteAddr (Conn connected))
           = Some \<lparr>ClientConn = Conn connected, LastMessage = Now later,
                   TimedOut = False, Strikes = 0\<rparr>
       \<and> Write (Conn connected) (Bytes (Text message))
           \<in> set (snd (server_step reading later picks s' message))"
proof -
  let ?a = "RemoteAddr (Conn connected)"
  let ?fresh = "\<lparr>ClientConn = Conn connected, LastMessage = zeroTime,
                 TimedOut = False, Strikes = 0\<rparr>"
  let ?sent = "?fresh\<lparr>LastMessage := Now later\<rparr>"
  have "map_of (clients (fst (server_step reading' later' picks' s connected))) ?a = Some ?fresh"
    using assms(1,2) by (simp add: step_connected update_conv')
  then have "map_of (clients s') ?a = Some ?fresh"
    using assms(3,4) by (simp add: server_other)
  then have step: "server_step reading later picks s' message = broadcast later picks s' ?a ?fresh (Text message)"
    using assms(5,6)
    by (simp add: step_known Sub_Now_zeroTime debounce_def maxDuration_not_early)
  have stamped: "map_of (clients (fst (broadcast later picks s' ?a ?fresh (Text message)))) ?a = Some ?sent"
    by (simp add: broadcast_def Let_def update_conv')
  then have "(?a, ?sent) \<in> set (clients (fst (broadcast later picks s' ?a ?fresh (Text message))))"
    by (rule map_of_SomeD)
  then have "(?a, ?sent) \<in> set (AList.update ?a ?sent (clients s'))"
    by (simp add: broadcast_def Let_def)
  then have "Write (ClientConn ?sent) (Bytes (Text message))
      \<in> (\<lambda>(k, c). Write (ClientConn c) (Bytes (Text message))) ` set (AList.update ?a ?sent (clients s'))"
    by (rule rev_image_eqI) simp
  then have "Write (Conn connected) (Bytes (Text message))
      \<in> set (snd (broadcast later picks s' ?a ?fresh (Text message)))"
    by (simp add: broadcast_def Let_def set_rangeOver)
  with step stamped show ?thesis by simp
qed

theorem first_message_accepted_witness:
  "Type (connects alice) = ClientConnected
   \<and> RemoteAddr (Conn (connects alice)) \<notin> dom (bannedClients initial)
   \<and> RemoteAddr (Conn (connects bob)) \<noteq> RemoteAddr (Conn (connects alice))
   \<and> Type (says alice ''hi'') = NewMessage
   \<and> RemoteAddr (Conn (says alice ''hi'')) = RemoteAddr (Conn (connects alice))
   \<and> map_of (clients (fst (server_step 0 0 []
         (server (fst (server_step (clock 0) (clock 0) [] initial (connects alice)))
            [at 10 (connects bob)])
         (says alice ''hi'')))) (RemoteAddr (Conn (connects alice)))
       = Some \<lparr>ClientConn = alice, LastMessage = Now 0, TimedOut = False, Strikes = 0\<rparr>
   \<and> Write alice (Bytes ''hi'')
       \<in> set (snd (server_step 0 0 []
         (server (fst (server_step (clock 0) (clock 0) [] initial (connects alice)))
            [at 10 (connects bob)])
         (says alice ''hi'')))"
proof -
  have kind: "Type (connects alice) = ClientConnected"
    and allowed: "RemoteAddr (Conn (connects alice)) \<notin> dom (bannedClients initial)"
    and others: "\<forall>(r, l, p, m) \<in> set [at 10 (connects bob)].
         RemoteAddr (Conn m) \<noteq> RemoteAddr (Conn (connects alice))"
    and kind': "Type (says alice ''hi'') = NewMessage"
    and same: "RemoteAddr (Conn (says alice ''hi'')) = RemoteAddr (Conn (connects alice))"
    by (simp_all add: session_defs initial_def)
  have conn: "Conn (connects alice) = alice" and said: "Text (says alice ''hi'') = ''hi''"
    by (simp_all add: connects_def says_def)
  have other: "RemoteAddr (Conn (connects bob)) \<noteq> RemoteAddr (Conn (connects alice))"
    by (simp add: session_defs)
  from first_message_accepted [OF kind allowed others refl kind' same, of 0 0 "[]"]
  show ?thesis
    using kind allowed other kind' same unfolding conn said by blast
qed

text \<open>
  C6: when neither the timeout stage nor the debounce stage stops a message, the sender's
  \<open>LastMessage\<close> becomes the clock read at the broadcast stage, nothing else in the state
  changes apart from a cleared timeout flag, and after the log lines the effects are the
  writes of the message's text, as it came, to the connections of the clients in the
  order in which the \<open>range\<close> visits them. Whatever that order is, it visits every client
  in \<open>clients\<close> once, so every client's connection is written to, the sender's among
  them.
\<close>

theorem broadcast_includes_sender:
  assumes "Type message = NewMessage"
    and "RemoteAddr (Conn message) = a"
    and "map_of (clients s) a = Some client"
    and "passedTime = Sub (Now reading) (LastMessage client)"
    and "\<not> (TimedOut client \<and> passedTime < TimeoutDuration * Second)"
    and "\<not> passedTime < MessageDebounce * Second"
    and "server_step reading later picks s message = (s', effects)"
  shows "clients s' = AList.update a (client\<lparr>TimedOut := False, LastMessage := Now later\<rparr>) (clients s)
       \<and> bannedClients s' = bannedClients s
       \<and> effects = (if TimedOut client then [Log (''Info: unban client '' @ a)] else [])
                   @ Log (''Info: send message '' @ Text message @ '' by '' @ a)
                   # map (\<lambda>(k, c). Write (ClientConn c) (Bytes (Text message)))
                       (rangeOver picks (clients s'))
       \<and> mset (rangeOver picks (clients s')) = mset (clients s')
       \<and> (\<forall>(k, c) \<in> set (clients s'). Write (ClientConn c) (Bytes (Text message)) \<in> set effects)
       \<and> Write (ClientConn client) (Bytes (Text message)) \<in> set effects"
proof -
  let ?c = "client\<lparr>TimedOut := False, LastMessage := Now later\<rparr>"
  let ?cs = "AList.update a ?c (clients s)"
  let ?logs = "(if TimedOut client then [Log (''Info: unban client '' @ a)] else [])"
  have step: "server_step reading later picks s message =
      (s\<lparr>clients := ?cs\<rparr>,
       ?logs @ Log (''Info: send message '' @ Text message @ '' by '' @ a)
         # map (\<lambda>(k, c). Write (ClientConn c) (Bytes (Text message))) (rangeOver picks ?cs))"
  proof (cases "TimedOut client")
    case True
    with assms(1-6) show ?thesis
      by (simp add: step_known debounce_def broadcast_def Let_def)
  next
    case False
    then have "client\<lparr>TimedOut := False\<rparr> = client" by simp
    then have "?c = client\<lparr>LastMessage := Now later\<rparr>" by simp
    with False assms(1-6) show ?thesis
      by (simp only: step_known debounce_def broadcast_def Let_def if_False if_True
            simp_thms append_Nil)
  qed
  with assms(7) have s': "s' = s\<lparr>clients := ?cs\<rparr>"
    and fx: "effects = ?logs @ Log (''Info: send message '' @ Text message @ '' by '' @ a)
         # map (\<lambda>(k, c). Write (ClientConn c) (Bytes (Text message))) (rangeOver picks ?cs)"
    by simp_all
  have once: "mset (rangeOver picks (clients s')) = mset (clients s')"
    by (rule mset_rangeOver)
  have all: "\<forall>(k, c) \<in> set (clients s'). Write (ClientConn c) (Bytes (Text message)) \<in> set effects"
    unfolding s' fx by (force simp: set_rangeOver)
  have "map_of ?cs a = Some ?c" by (simp add: update_conv')
  then have "(a, ?c) \<in> set (clients s')" unfolding s' by (simp add: map_of_SomeD)
  with all have "Write (ClientConn ?c) (Bytes (Text message)) \<in> set effects" by blast
  then have own: "Write (ClientConn client) (Bytes (Text message)) \<in> set effects" by simp
  from s' fx once all own show ?thesis by simp
qed

theorem broadcast_includes_sender_witness:
  "Type (says alice ''ok'') = NewMessage
   \<and> RemoteAddr (Conn (says alice ''ok'')) = RemoteAddr alice
   \<and> map_of (clients (server initial lobby)) (RemoteAddr alice) = Some (snd (member alice 1000 False 0))
   \<and> 2000000000 = Sub (Now (clock 3000)) (LastMessage (snd (member alice 1000 False 0)))
   \<and> \<not> (TimedOut (snd (member alice 1000 False 0)) \<and> 2000000000 < TimeoutDuration * Second)
   \<and> \<not> 2000000000 < MessageDebounce * Second
   \<and> server_step (clock 3000) (clock 3002) [1] (server initial lobby) (says alice ''ok'') =
       (\<lparr>clients = [member alice 3002 False 0, newcomer bob], bannedClients = Map.empty\<rparr>,
        [Log ''Info: send message ok by 10.0.0.7:50412'',
         Write bob (Bytes ''ok''), Write alice (Bytes ''ok'')])
   \<and> newcomer bob \<in> set (clients
          \<lparr>clients = [member alice 3002 False 0, newcomer bob], bannedClients = Map.empty\<rparr>)
   \<and> Write (ClientConn (snd (newcomer bob))) (Bytes (Text (says alice ''ok'')))
       \<in> set [Log ''Info: send message ok by 10.0.0.7:50412'',
              Write bob (Bytes ''ok''), Write alice (Bytes ''ok'')]
   \<and> Write (ClientConn (snd (member alice 1000 False 0))) (Bytes (Text (says alice ''ok'')))
       \<in> set [Log ''Info: send message ok by 10.0.0.7:50412'',
              Write bob (Bytes ''ok''), Write alice (Bytes ''ok'')]"
proof -
  let ?s' = "\<lparr>clients = [member alice 3002 False 0, newcomer bob], bannedClients = Map.empty\<rparr>"
  let ?effects = "[Log ''Info: send message ok by 10.0.0.7:50412'',
                   Write bob (Bytes ''ok''), Write alice (Bytes ''ok'')]"
  have kind: "Type (says alice ''ok'') = NewMessage"
    and sender: "RemoteAddr (Conn (says alice ''ok'')) = RemoteAddr alice"
    by (simp_all add: says_def)
  have known: "map_of (clients (server initial lobby)) (RemoteAddr alice)
       = Some (snd (member alice 1000 False 0))"
    by (simp add: after_lobby session_defs)
  have passed: "2000000000 = Sub (Now (clock 3000)) (LastMessage (snd (member alice 1000 False 0)))"
    by (simp add: session_defs step_defs)
  have free: "\<not> (TimedOut (snd (member alice 1000 False 0)) \<and> 2000000000 < TimeoutDuration * Second)"
    by (simp add: member_def)
  have spaced: "\<not> 2000000000 < MessageDebounce * Second"
    by (simp add: MessageDebounce_def Second_def)
  have step: "server_step (clock 3000) (clock 3002) [1] (server initial lobby) (says alice ''ok'')
      = (?s', ?effects)"
    by (simp add: after_lobby session_defs step_defs)
  have listed: "newcomer bob \<in> set (clients ?s')"
    by simp
  from broadcast_includes_sender [OF kind sender known passed free spaced step]
  have all: "\<forall>(k, c) \<in> set (clients ?s').
           Write (ClientConn c) (Bytes (Text (says alice ''ok''))) \<in> set ?effects"
    and own: "Write (ClientConn (snd (member alice 1000 False 0))) (Bytes (Text (says alice ''ok'')))
           \<in> set ?effects"
    by blast+
  from all listed
  have "case newcomer bob of
          (k, c) \<Rightarrow> Write (ClientConn c) (Bytes (Text (says alice ''ok''))) \<in> set ?effects"
    by (rule bspec)
  then have "Write (ClientConn (snd (newcomer bob))) (Bytes (Text (says alice ''ok'')))
           \<in> set ?effects"
    by (simp only: case_prod_beta)
  with own listed
  have "newcomer bob \<in> set (clients ?s')
       \<and> Write (ClientConn (snd (newcomer bob))) (Bytes (Text (says alice ''ok''))) \<in> set ?effects
       \<and> Write (ClientConn (snd (member alice 1000 False 0))) (Bytes (Text (says alice ''ok'')))
           \<in> set ?effects"
    by blast
  with kind sender known passed free spaced step show ?thesis by blast
qed

text \<open>
  C2: in a \<open>NewMessage\<close> step the strikes of a client change only for the sender, only
  when the timeout stage lets the message through and the passed time is below
  \<open>MessageDebounce\<close>, and then by the increment. When the incremented strikes reach 3,
  the same step adds the address to \<open>bannedClients\<close>, writes the ban notice to the
  client's connection and closes it, and deletes the client: in the state that the step
  returns the address is banned and has no client.
\<close>

theorem strikes_and_ban:
  assumes "Type message = NewMessage"
    and "RemoteAddr (Conn message) = a"
    and "server_step reading later picks s message = (s', effects)"
  shows "(\<forall>b c c'. map_of (clients s) b = Some c \<and> map_of (clients s') b = Some c'
             \<and> Strikes c' \<noteq> Strikes c \<longrightarrow>
           b = a
           \<and> \<not> (TimedOut c \<and> Sub (Now reading) (LastMessage c) < TimeoutDuration * Second)
           \<and> Sub (Now reading) (LastMessage c) < MessageDebounce * Second
           \<and> Strikes c' = wrap64 (Strikes c + 1))
       \<and> (\<forall>c. map_of (clients s) a = Some c
             \<and> \<not> (TimedOut c \<and> Sub (Now reading) (LastMessage c) < TimeoutDuration * Second)
             \<and> Sub (Now reading) (LastMessage c) < MessageDebounce * Second
             \<and> 3 \<le> wrap64 (Strikes c + 1) \<longrightarrow>
           bannedClients s' = (bannedClients s)(a \<mapsto> True)
           \<and> clients s' = AList.delete a (clients s)
           \<and> map_of (clients s') a = None
           \<and> effects = [Write (ClientConn c) (Bytes ''you are banned. bye bye''),
                         Close (ClientConn c)])"
proof (intro conjI allI impI)
  fix b c c'
  assume h: "map_of (clients s) b = Some c \<and> map_of (clients s') b = Some c'
             \<and> Strikes c' \<noteq> Strikes c"
  have s': "s' = fst (server_step reading later picks s message)"
    using assms(3) by simp
  show ba: "b = a"
  proof (rule ccontr)
    assume "b \<noteq> a"
    then have "map_of (clients s') b = map_of (clients s) b"
      using assms(2) by (simp add: s' step_other)
    with h show False by (metis option.inject)
  qed
  let ?p = "Sub (Now reading) (LastMessage c)"
  have known: "map_of (clients s) (RemoteAddr (Conn message)) = Some c"
    using h ba assms(2) by simp
  show wait: "\<not> (TimedOut c \<and> ?p < TimeoutDuration * Second)"
  proof
    assume "TimedOut c \<and> ?p < TimeoutDuration * Second"
    then have "s' = s" by (simp add: s' step_known[OF assms(1) known])
    with h show False by (metis option.inject)
  qed
  have c': "map_of (clients s') a =
     (if ?p < MessageDebounce * Second
      then if 3 \<le> wrap64 (Strikes c + 1) then None
           else Some (c\<lparr>Strikes := wrap64 (Strikes c + 1), TimedOut := True,
                        LastMessage := Now later\<rparr>)
      else Some (c\<lparr>TimedOut := False, LastMessage := Now later\<rparr>))"
  proof (cases "TimedOut c")
    case True
    with wait assms(2) show ?thesis
      by (simp add: s' step_known[OF assms(1) known] debounce_same not_late_and_early)
  next
    case False
    then have "c\<lparr>TimedOut := False\<rparr> = c" by simp
    then have "c\<lparr>TimedOut := False, LastMessage := Now later\<rparr>
                 = c\<lparr>LastMessage := Now later\<rparr>" by simp
    with False assms(2) show ?thesis
      by (simp only: s' step_known[OF assms(1) known] debounce_same simp_thms if_False)
  qed
  show "?p < MessageDebounce * Second"
    using h ba c' by (auto split: if_splits)
  show "Strikes c' = wrap64 (Strikes c + 1)"
    using h ba c' by (auto split: if_splits)
next
  fix c :: Client
  let ?p = "Sub (Now reading) (LastMessage c)"
  assume h: "map_of (clients s) a = Some c
             \<and> \<not> (TimedOut c \<and> ?p < TimeoutDuration * Second)
             \<and> ?p < MessageDebounce * Second
             \<and> 3 \<le> wrap64 (Strikes c + 1)"
  then have known: "map_of (clients s) (RemoteAddr (Conn message)) = Some c"
    using assms(2) by simp
  from h have "\<not> TimedOut c"
    using not_late_and_early[of ?p] by auto
  with h assms(2) have "server_step reading later picks s message =
      (s\<lparr>clients := AList.delete a (clients s),
         bannedClients := (bannedClients s)(a \<mapsto> True)\<rparr>,
       [Write (ClientConn c) (Bytes ''you are banned. bye bye''), Close (ClientConn c)])"
    by (simp add: step_known[OF assms(1) known] debounce_def Let_def)
  with assms(3) have s': "s' = s\<lparr>clients := AList.delete a (clients s),
         bannedClients := (bannedClients s)(a \<mapsto> True)\<rparr>"
    and fx: "effects = [Write (ClientConn c) (Bytes ''you are banned. bye bye''), Close (ClientConn c)]"
    by simp_all
  show "bannedClients s' = (bannedClients s)(a \<mapsto> True)" by (simp add: s')
  show "clients s' = AList.delete a (clients s)" by (simp add: s')
  show "map_of (clients s') a = None" by (simp add: s' delete_conv')
  show "effects = [Write (ClientConn c) (Bytes ''you are banned. bye bye''), Close (ClientConn c)]"
    by (rule fx)
qed

theorem strikes_and_ban_witness:
  "Type (says alice ''yo'') = NewMessage
   \<and> RemoteAddr (Conn (says alice ''yo'')) = RemoteAddr alice
   \<and> server_step (clock 1200) (clock 1201) [] (server initial lobby) (says alice ''yo'') =
       (\<lparr>clients = [member alice 1201 True 1, newcomer bob], bannedClients = Map.empty\<rparr>,
        [Log ''Info: timeout client 10.0.0.7:50412 for 5.000000. number strikes: 1'',
         Write alice (Bytes ''Strike number 1. You are timed out. Wait for 5'')])
   \<and> map_of (clients (server initial lobby)) (RemoteAddr alice) = Some (snd (member alice 1000 False 0))
   \<and> map_of (clients \<lparr>clients = [member alice 1201 True 1, newcomer bob],
                        bannedClients = Map.empty\<rparr>) (RemoteAddr alice)
       = Some (snd (member alice 1201 True 1))
   \<and> Strikes (snd (member alice 1201 True 1)) \<noteq> Strikes (snd (member alice 1000 False 0))
   \<and> Sub (Now (clock 1200)) (LastMessage (snd (member alice 1000 False 0))) < MessageDebounce * Second
   \<and> Strikes (snd (member alice 1201 True 1)) = wrap64 (Strikes (snd (member alice 1000 False 0)) + 1)
   \<and> Type (says alice ''last'') = NewMessage
   \<and> RemoteAddr (Conn (says alice ''last'')) = RemoteAddr alice
   \<and> server_step (clock 13400) (clock 13400) [] (server initial calm_two) (says alice ''last'') =
       (\<lparr>clients = [newcomer bob], bannedClients = [RemoteAddr alice \<mapsto> True]\<rparr>,
        [Write alice (Bytes ''you are banned. bye bye''), Close alice])
   \<and> map_of (clients (server initial calm_two)) (RemoteAddr alice) = Some (snd (member alice 13000 False 2))
   \<and> \<not> (TimedOut (snd (member alice 13000 False 2))
          \<and> Sub (Now (clock 13400)) (LastMessage (snd (member alice 13000 False 2)))
              < TimeoutDuration * Second)
   \<and> Sub (Now (clock 13400)) (LastMessage (snd (member alice 13000 False 2))) < MessageDebounce * Second
   \<and> 3 \<le> wrap64 (Strikes (snd (member alice 13000 False 2)) + 1)
   \<and> bannedClients \<lparr>clients = [newcomer bob], bannedClients = [RemoteAddr alice \<mapsto> True]\<rparr>
       = (bannedClients (server initial calm_two))(RemoteAddr alice \<mapsto> True)
   \<and> map_of (clients \<lparr>clients = [newcomer bob], bannedClients = [RemoteAddr alice \<mapsto> True]\<rparr>)
        (RemoteAddr alice) = None"
proof -
  let ?struck = "\<lparr>clients = [member alice 1201 True 1, newcomer bob], bannedClients = Map.empty\<rparr>"
  let ?banned = "\<lparr>clients = [newcomer bob], bannedClients = [RemoteAddr alice \<mapsto> True]\<rparr>"
  have kind: "Type (says alice ''yo'') = NewMessage"
    and sender: "RemoteAddr (Conn (says alice ''yo'')) = RemoteAddr alice"
    and kind': "Type (says alice ''last'') = NewMessage"
    and sender': "RemoteAddr (Conn (says alice ''last'')) = RemoteAddr alice"
    by (simp_all add: says_def)
  have strike: "server_step (clock 1200) (clock 1201) [] (server initial lobby) (says alice ''yo'') =
       (?struck,
        [Log ''Info: timeout client 10.0.0.7:50412 for 5.000000. number strikes: 1'',
         Write alice (Bytes ''Strike number 1. You are timed out. Wait for 5'')])"
    by (simp add: after_lobby session_defs step_defs)
  have before: "map_of (clients (server initial lobby)) (RemoteAddr alice)
      = Some (snd (member alice 1000 False 0))"
    by (simp add: after_lobby session_defs)
  have after: "map_of (clients ?struck) (RemoteAddr alice) = Some (snd (member alice 1201 True 1))"
    by (simp add: session_defs)
  have changed: "Strikes (snd (member alice 1201 True 1)) \<noteq> Strikes (snd (member alice 1000 False 0))"
    by (simp add: member_def)
  from strikes_and_ban [OF kind sender strike] before after changed
  have counted: "Sub (Now (clock 1200)) (LastMessage (snd (member alice 1000 False 0)))
        < MessageDebounce * Second
      \<and> Strikes (snd (member alice 1201 True 1)) = wrap64 (Strikes (snd (member alice 1000 False 0)) + 1)"
    by blast
  have ban: "server_step (clock 13400) (clock 13400) [] (server initial calm_two) (says alice ''last'') =
       (?banned, [Write alice (Bytes ''you are banned. bye bye''), Close alice])"
    by (simp add: after_calm_two session_defs step_defs)
  have known: "map_of (clients (server initial calm_two)) (RemoteAddr alice)
      = Some (snd (member alice 13000 False 2))"
    by (simp add: after_calm_two session_defs)
  have through: "\<not> (TimedOut (snd (member alice 13000 False 2))
          \<and> Sub (Now (clock 13400)) (LastMessage (snd (member alice 13000 False 2)))
              < TimeoutDuration * Second)"
    by (simp add: member_def)
  have early: "Sub (Now (clock 13400)) (LastMessage (snd (member alice 13000 False 2)))
      < MessageDebounce * Second"
    by (simp add: session_defs step_defs)
  have third: "3 \<le> wrap64 (Strikes (snd (member alice 13000 False 2)) + 1)"
    by (simp add: member_def wrap64_def)
  from strikes_and_ban [OF kind' sender' ban] known through early third
  have removed: "bannedClients ?banned = (bannedClients (server initial calm_two))(RemoteAddr alice \<mapsto> True)
      \<and> map_of (clients ?banned) (RemoteAddr alice) = None"
    by blast
  from kind sender strike before after changed counted kind' sender' ban known through early
    third removed
  show ?thesis by blast
qed

subsection \<open>Clients and the ban list stay apart\<close>

lemma apart_debounce:
  assumes "fst ` set (clients s) \<inter> dom (bannedClients s) = {}"
    and "distinct (map fst (clients s))"
    and "a \<in> fst ` set (clients s)"
  shows "fst ` set (clients (fst (debounce later picks s a c p t)))
           \<inter> dom (bannedClients (fst (debounce later picks s a c p t))) = {}
       \<and> distinct (map fst (clients (fst (debounce later picks s a c p t))))"
proof -
  have "a \<notin> fst ` set (AList.delete a (clients s))"
    by (rule delete_notin_dom)
  moreover have "fst ` set (AList.delete a (clients s)) \<subseteq> fst ` set (clients s)"
    by (rule dom_delete_subset)
  ultimately have ban: "fst ` set (AList.delete a (clients s))
      \<inter> dom ((bannedClients s)(a \<mapsto> True)) = {}"
    using assms(1) by auto
  have keep: "fst ` set (AList.update a c' (clients s)) \<inter> dom (bannedClients s) = {}" for c'
    using assms(1,3) by (auto simp: dom_update)
  show ?thesis
    using ban keep assms(2)
    by (simp add: debounce_def broadcast_def Let_def distinct_update distinct_delete)
qed

lemma apart_step:
  assumes "fst ` set (clients s) \<inter> dom (bannedClients s) = {}"
    and "distinct (map fst (clients s))"
  shows "fst ` set (clients (fst (server_step reading later picks s m)))
           \<inter> dom (bannedClients (fst (server_step reading later picks s m))) = {}
       \<and> distinct (map fst (clients (fst (server_step reading later picks s m))))"
proof (cases "Type m")
  case ClientConnected
  show ?thesis
  proof (cases "RemoteAddr (Conn m) \<in> dom (bannedClients s)")
    case True
    with ClientConnected assms show ?thesis by (simp add: step_refused)
  next
    case False
    with ClientConnected assms show ?thesis
      by (auto simp: step_connected dom_update distinct_update)
  qed
next
  case ClientDisconnected
  have "fst ` set (AList.delete (RemoteAddr (Conn m)) (clients s)) \<subseteq> fst ` set (clients s)"
    by (rule dom_delete_subset)
  with assms(1) have "fst ` set (AList.delete (RemoteAddr (Conn m)) (clients s))
      \<inter> dom (bannedClients s) = {}"
    by blast
  with ClientDisconnected assms(2) show ?thesis
    by (simp add: step_disconnected distinct_delete)
next
  case NewMessage
  show ?thesis
  proof (cases "map_of (clients s) (RemoteAddr (Conn m))")
    case None
    with NewMessage assms show ?thesis by (simp add: step_unknown)
  next
    case (Some c)
    then have "RemoteAddr (Conn m) \<in> fst ` set (clients s)"
      by (metis map_of_eq_None_iff option.distinct(1))
    with assms show ?thesis
      by (simp add: step_known[OF NewMessage Some] apart_debounce)
  qed
qed

lemma apart_server:
  "fst ` set (clients s) \<inter> dom (bannedClients s) = {} \<Longrightarrow> distinct (map fst (clients s)) \<Longrightarrow>
   fst ` set (clients (server s events)) \<inter> dom (bannedClients (server s events)) = {}
   \<and> distinct (map fst (clients (server s events)))"
proof (induction s events rule: server.induct)
  case (1 s)
  then show ?case by simp
next
  case (2 s reading later picks message rest)
  from apart_step[OF "2.prems", of reading later picks message] "2.IH" show ?case by simp
qed

text \<open>
  C7: in every state that the server reaches from its initial state, whatever messages
  it receives and whatever the clock reads, no address with a client is in
  \<open>bannedClients\<close>, and \<open>clients\<close> has one entry per address.
\<close>

theorem clients_never_banned:
  "fst ` set (clients (server initial events)) \<inter> dom (bannedClients (server initial events)) = {}
   \<and> distinct (map fst (clients (server initial events)))"
  by (rule apart_server) (simp_all add: initial_def)

subsection \<open>Strikes stay below the threshold\<close>

lemma set_update_subset: "set (AList.update k v al) \<subseteq> insert (k, v) (set al)"
  by (induction al) auto

lemma set_delete_subset: "set (AList.delete k al) \<subseteq> set al"
  by (auto simp: AList.delete_eq)

lemma strikes_update:
  assumes "\<forall>(k, c) \<in> set al. Strikes c \<le> 2" and "Strikes v \<le> 2"
  shows "\<forall>(k, c) \<in> set (AList.update a v al). Strikes c \<le> 2"
  using assms set_update_subset[of a v al] by fastforce

lemma strikes_delete:
  assumes "\<forall>(k, c) \<in> set al. Strikes c \<le> 2"
  shows "\<forall>(k, c) \<in> set (AList.delete a al). Strikes c \<le> 2"
  using assms set_delete_subset[of a al] by fastforce

lemma strikes_debounce:
  assumes "\<forall>(k, c) \<in> set (clients s). Strikes c \<le> 2"
    and "Strikes c0 \<le> 2"
  shows "\<forall>(k, c) \<in> set (clients (fst (debounce later picks s a c0 p t))). Strikes c \<le> 2"
proof -
  have strike: "\<forall>(k, c) \<in> set (AList.update a
      (c0\<lparr>Strikes := wrap64 (Strikes c0 + 1), TimedOut := True, LastMessage := Now later\<rparr>)
      (clients s)). Strikes c \<le> 2"
    if "\<not> 3 \<le> wrap64 (Strikes c0 + 1)"
    using that by (intro strikes_update assms(1)) simp
  have sent: "\<forall>(k, c) \<in> set (AList.update a (c0\<lparr>LastMessage := Now later\<rparr>) (clients s)).
      Strikes c \<le> 2"
    using assms(2) by (intro strikes_update assms(1)) simp
  from strike sent strikes_delete[OF assms(1), of a] show ?thesis
    by (simp add: debounce_def broadcast_def Let_def)
qed

lemma strikes_step:
  assumes "\<forall>(k, c) \<in> set (clients s). Strikes c \<le> 2"
  shows "\<forall>(k, c) \<in> set (clients (fst (server_step reading later picks s m))). Strikes c \<le> 2"
proof (cases "Type m")
  case ClientConnected
  show ?thesis
  proof (cases "RemoteAddr (Conn m) \<in> dom (bannedClients s)")
    case True
    with ClientConnected assms show ?thesis by (simp add: step_refused)
  next
    case False
    have "\<forall>(k, c) \<in> set (AList.update (RemoteAddr (Conn m))
        \<lparr>ClientConn = Conn m, LastMessage = zeroTime, TimedOut = False, Strikes = 0\<rparr>
        (clients s)). Strikes c \<le> 2"
      by (intro strikes_update assms) simp
    with ClientConnected False show ?thesis
      by (simp add: step_connected)
  qed
next
  case ClientDisconnected
  with strikes_delete[OF assms, of "RemoteAddr (Conn m)"] show ?thesis
    by (simp add: step_disconnected)
next
  case NewMessage
  show ?thesis
  proof (cases "map_of (clients s) (RemoteAddr (Conn m))")
    case None
    with NewMessage assms show ?thesis by (simp add: step_unknown)
  next
    case (Some c)
    then have "(RemoteAddr (Conn m), c) \<in> set (clients s)"
      by (rule map_of_SomeD)
    with assms have "Strikes c \<le> 2" by blast
    then have "Strikes (c\<lparr>TimedOut := False\<rparr>) \<le> 2" by simp
    note cleared = strikes_debounce[OF assms this]
    note plain = strikes_debounce[OF assms \<open>Strikes c \<le> 2\<close>]
    show ?thesis
      unfolding step_known[OF NewMessage Some]
      using assms cleared plain by (simp only: fst_conv split: if_split) blast
  qed
qed

lemma strikes_server:
  "\<forall>(k, c) \<in> set (clients s). Strikes c \<le> 2 \<Longrightarrow>
   \<forall>(k, c) \<in> set (clients (server s events)). Strikes c \<le> 2"
proof (induction s events rule: server.induct)
  case (1 s)
  then show ?case by simp
next
  case (2 s reading later picks message rest)
  from strikes_step[OF "2.prems", of reading later picks message] "2.IH" show ?case by simp
qed

subsection \<open>A timed-out client carries the time its timeout began\<close>

lemma timed_step:
  assumes "map_of (clients (fst (server_step reading later picks s m))) b = Some c'"
    and "TimedOut c'"
  shows "map_of (clients s) b = Some c' \<or> (\<not> timedOutAt s b \<and> LastMessage c' = Now later)"
proof (cases "RemoteAddr (Conn m) = b")
  case False
  with assms(1) show ?thesis by (simp add: step_other)
next
  case True
  show ?thesis
  proof (cases "Type m")
    case ClientConnected
    show ?thesis
    proof (cases "b \<in> dom (bannedClients s)")
      case True
      with ClientConnected \<open>RemoteAddr (Conn m) = b\<close> assms(1) show ?thesis
        by (simp add: step_refused)
    next
      case False
      with ClientConnected \<open>RemoteAddr (Conn m) = b\<close> assms show ?thesis
        by (auto simp: step_connected update_conv')
    qed
  next
    case ClientDisconnected
    with True assms(1) show ?thesis
      by (simp add: step_disconnected delete_conv')
  next
    case NewMessage
    show ?thesis
    proof (cases "map_of (clients s) (RemoteAddr (Conn m))")
      case None
      with NewMessage True assms(1) show ?thesis by (simp add: step_unknown)
    next
      case (Some c)
      let ?p = "Sub (Now reading) (LastMessage c)"
      show ?thesis
      proof (cases "TimedOut c")
        case flagged: True
        show ?thesis
        proof (cases "?p < TimeoutDuration * Second")
          case True
          with flagged assms(1) show ?thesis
            by (simp add: step_known[OF NewMessage Some])
        next
          case False
          then have "\<not> ?p < MessageDebounce * Second"
            by (simp add: not_late_and_early)
          with False flagged True assms show ?thesis
            by (auto simp: step_known[OF NewMessage Some] debounce_same)
        qed
      next
        case False
        then have "\<not> timedOutAt s b"
          using Some True by (simp add: timedOutAt_def)
        with False True assms show ?thesis
          by (auto simp: step_known[OF NewMessage Some] debounce_same split: if_splits)
      qed
    qed
  qed
qed

lemma began_server:
  "\<forall>c. map_of (clients s) a = Some c \<and> TimedOut c \<longrightarrow> began = Some (LastMessage c) \<Longrightarrow>
   \<forall>c. map_of (clients (server s events)) a = Some c \<and> TimedOut c \<longrightarrow>
         timeoutBegan a s began events = Some (LastMessage c)"
proof (induction a s began events rule: timeoutBegan.induct)
  case (1 a s began)
  then show ?case by simp
next
  case (2 a s began reading later picks message rest)
  let ?s' = "fst (server_step reading later picks s message)"
  let ?began' = "if timedOutAt ?s' a \<and> \<not> timedOutAt s a then Some (Now later) else began"
  have "\<forall>c. map_of (clients ?s') a = Some c \<and> TimedOut c \<longrightarrow> ?began' = Some (LastMessage c)"
  proof (intro allI impI)
    fix c
    assume c: "map_of (clients ?s') a = Some c \<and> TimedOut c"
    then have now: "timedOutAt ?s' a" by (simp add: timedOutAt_def)
    from c timed_step[of reading later picks s message a c]
    consider "map_of (clients s) a = Some c" | "\<not> timedOutAt s a" "LastMessage c = Now later"
      by blast
    then show "?began' = Some (LastMessage c)"
    proof cases
      case 1
      with c have "timedOutAt s a" by (simp add: timedOutAt_def)
      with 1 c "2.prems" show ?thesis by simp
    next
      case 2
      with now show ?thesis by simp
    qed
  qed
  from "2.IH"[OF refl this] show ?case by (simp add: Let_def)
qed

text \<open>
  C10: in every state that the server reaches from its initial state, a client that is
  timed out has as \<open>LastMessage\<close> the time at which its current timeout began, as
  \<open>timeoutBegan\<close> observes it along the run. \<open>MessageDebounce\<close> is at most
  \<open>TimeoutDuration\<close>, so a message that clears a timeout, read \<open>TimeoutDuration\<close> or
  more after \<open>LastMessage\<close>, is always broadcast: the step clears the flag, sets the time
  stamp, leaves the strikes as they were and writes the text to every client, once each,
  in the order in which the \<open>range\<close> visits them. And in every reachable state every
  client has at most 2 strikes.
\<close>

theorem cleared_timeout_is_broadcast:
  "(\<forall>a c. map_of (clients (server initial events)) a = Some c \<and> TimedOut c \<longrightarrow>
          timeoutBegan a initial None events = Some (LastMessage c))
   \<and> MessageDebounce \<le> TimeoutDuration
   \<and> (Type message = NewMessage
        \<and> map_of (clients s) (RemoteAddr (Conn message)) = Some client
        \<and> TimedOut client
        \<and> TimeoutDuration * Second \<le> Sub (Now reading) (LastMessage client) \<longrightarrow>
      server_step reading later picks s message =
        (s\<lparr>clients := AList.update (RemoteAddr (Conn message))
              (client\<lparr>TimedOut := False, LastMessage := Now later\<rparr>) (clients s)\<rparr>,
         Log (''Info: unban client '' @ RemoteAddr (Conn message))
           # Log (''Info: send message '' @ Text message @ '' by '' @ RemoteAddr (Conn message))
           # map (\<lambda>(k, c). Write (ClientConn c) (Bytes (Text message)))
               (rangeOver picks (AList.update (RemoteAddr (Conn message))
                  (client\<lparr>TimedOut := False, LastMessage := Now later\<rparr>) (clients s))))
      \<and> mset (rangeOver picks (AList.update (RemoteAddr (Conn message))
                  (client\<lparr>TimedOut := False, LastMessage := Now later\<rparr>) (clients s)))
          = mset (AList.update (RemoteAddr (Conn message))
                  (client\<lparr>TimedOut := False, LastMessage := Now later\<rparr>) (clients s))
      \<and> Strikes (client\<lparr>TimedOut := False, LastMessage := Now later\<rparr>) = Strikes client)
   \<and> (\<forall>(a, c) \<in> set (clients (server initial events)). Strikes c \<le> 2)"
proof (intro conjI)
  show "\<forall>a c. map_of (clients (server initial events)) a = Some c \<and> TimedOut c \<longrightarrow>
          timeoutBegan a initial None events = Some (LastMessage c)"
  proof
    fix a
    show "\<forall>c. map_of (clients (server initial events)) a = Some c \<and> TimedOut c \<longrightarrow>
          timeoutBegan a initial None events = Some (LastMessage c)"
      by (rule began_server) (simp add: initial_def)
  qed
  show "MessageDebounce \<le> TimeoutDuration"
    by (simp add: MessageDebounce_def TimeoutDuration_def)
  show "Type message = NewMessage
        \<and> map_of (clients s) (RemoteAddr (Conn message)) = Some client
        \<and> TimedOut client
        \<and> TimeoutDuration * Second \<le> Sub (Now reading) (LastMessage client) \<longrightarrow>
      server_step reading later picks s message =
        (s\<lparr>clients := AList.update (RemoteAddr (Conn message))
              (client\<lparr>TimedOut := False, LastMessage := Now later\<rparr>) (clients s)\<rparr>,
         Log (''Info: unban client '' @ RemoteAddr (Conn message))
           # Log (''Info: send message '' @ Text message @ '' by '' @ RemoteAddr (Conn message))
           # map (\<lambda>(k, c). Write (ClientConn c) (Bytes (Text message)))
               (rangeOver picks (AList.update (RemoteAddr (Conn message))
                  (client\<lparr>TimedOut := False, LastMessage := Now later\<rparr>) (clients s))))
      \<and> mset (rangeOver picks (AList.update (RemoteAddr (Conn message))
                  (client\<lparr>TimedOut := False, LastMessage := Now later\<rparr>) (clients s)))
          = mset (AList.update (RemoteAddr (Conn message))
                  (client\<lparr>TimedOut := False, LastMessage := Now later\<rparr>) (clients s))
      \<and> Strikes (client\<lparr>TimedOut := False, LastMessage := Now later\<rparr>) = Strikes client"
    by (simp add: step_known not_late_and_early debounce_def broadcast_def Let_def
        mset_rangeOver)
  show "\<forall>(a, c) \<in> set (clients (server initial events)). Strikes c \<le> 2"
    by (rule strikes_server) (simp add: initial_def)
qed

theorem cleared_timeout_is_broadcast_witness:
  "map_of (clients (server initial strike_one)) (RemoteAddr alice)
       = Some (snd (member alice 1200 True 1))
   \<and> TimedOut (snd (member alice 1200 True 1))
   \<and> timeoutBegan (RemoteAddr alice) initial None strike_one = Some (Now (clock 1200))
   \<and> Type (says alice ''final'') = NewMessage
   \<and> map_of (clients (server initial strike_one)) (RemoteAddr (Conn (says alice ''final'')))
       = Some (snd (member alice 1200 True 1))
   \<and> TimeoutDuration * Second
       \<le> Sub (Now (clock 7000)) (LastMessage (snd (member alice 1200 True 1)))
   \<and> server_step (clock 7000) (clock 7000) [1] (server initial strike_one) (says alice ''final'') =
       (\<lparr>clients = [member alice 7000 False 1, newcomer bob], bannedClients = Map.empty\<rparr>,
        [Log ''Info: unban client 10.0.0.7:50412'',
         Log ''Info: send message final by 10.0.0.7:50412'',
         Write bob (Bytes ''final''), Write alice (Bytes ''final'')])
   \<and> member alice 7300 True 2 \<in> set (clients (server initial strike_two))
   \<and> Strikes (snd (member alice 7300 True 2)) \<le> 2"
proof -
  let ?timed = "snd (member alice 1200 True 1)"
  let ?s = "server initial strike_one"
  have known: "map_of (clients ?s) (RemoteAddr alice) = Some ?timed"
    by (simp add: after_strike_one session_defs)
  have flag: "TimedOut ?timed"
    by (simp add: member_def)
  have kind: "Type (says alice ''final'') = NewMessage"
    by (simp add: says_def)
  have known': "map_of (clients ?s) (RemoteAddr (Conn (says alice ''final''))) = Some ?timed"
    by (simp add: after_strike_one session_defs)
  have expired: "TimeoutDuration * Second \<le> Sub (Now (clock 7000)) (LastMessage ?timed)"
    by (simp add: session_defs step_defs)
  have two: "(member alice 7300 True 2) \<in> set (clients (server initial strike_two))"
    by (simp add: after_strike_two)
  note run = cleared_timeout_is_broadcast [where events = strike_one]
  note step = cleared_timeout_is_broadcast [where s = ?s and message = "says alice ''final''"
      and client = ?timed and reading = "clock 7000" and later = "clock 7000"
      and picks = "[1]"]
  note bound = cleared_timeout_is_broadcast [where events = strike_two]
  from run known flag
  have "timeoutBegan (RemoteAddr alice) initial None strike_one = Some (LastMessage ?timed)"
    by blast
  then have began: "timeoutBegan (RemoteAddr alice) initial None strike_one = Some (Now (clock 1200))"
    by (simp add: member_def)
  from step kind known' flag expired
  have "server_step (clock 7000) (clock 7000) [1] ?s (says alice ''final'') =
        (?s\<lparr>clients := AList.update (RemoteAddr (Conn (says alice ''final'')))
              (?timed\<lparr>TimedOut := False, LastMessage := Now (clock 7000)\<rparr>) (clients ?s)\<rparr>,
         Log (''Info: unban client '' @ RemoteAddr (Conn (says alice ''final'')))
           # Log (''Info: send message '' @ Text (says alice ''final'') @ '' by ''
                   @ RemoteAddr (Conn (says alice ''final'')))
           # map (\<lambda>(k, c). Write (ClientConn c) (Bytes (Text (says alice ''final''))))
               (rangeOver [1] (AList.update (RemoteAddr (Conn (says alice ''final'')))
                  (?timed\<lparr>TimedOut := False, LastMessage := Now (clock 7000)\<rparr>) (clients ?s))))"
    by blast
  then have sent: "server_step (clock 7000) (clock 7000) [1] ?s (says alice ''final'') =
       (\<lparr>clients = [member alice 7000 False 1, newcomer bob], bannedClients = Map.empty\<rparr>,
        [Log ''Info: unban client 10.0.0.7:50412'',
         Log ''Info: send message final by 10.0.0.7:50412'',
         Write bob (Bytes ''final''), Write alice (Bytes ''final'')])"
    by (simp add: after_strike_one session_defs)
  from bound have "\<forall>(a, c) \<in> set (clients (server initial strike_two)). Strikes c \<le> 2"
    by blast
  from this two have "case member alice 7300 True 2 of (a, c) \<Rightarrow> Strikes c \<le> 2"
    by (rule bspec)
  then have few: "Strikes (snd (member alice 7300 True 2)) \<le> 2"
    by (simp only: case_prod_beta)
  from known flag began kind known' expired sent two few show ?thesis by blast
qed

text \<open>
  C4: the escalation of one client, message by message. A violation is a message that the
  timeout stage lets through (the client is not timed out, or its timeout has expired)
  and that is read less than \<open>MessageDebounce\<close> after \<open>LastMessage\<close>. The first
  violation, at 0 strikes, sets the timeout and writes the notice of strike 1; a message
  read while the timeout runs is answered with the wait notice and changes nothing, the
  strikes included; the next violation, at 1 strike, writes the notice of strike 2 and
  sets the timeout again; the violation at 2 strikes bans the address, writes the ban
  notice, closes the connection and deletes the client.
\<close>

theorem strike_escalation:
  assumes "Type message = NewMessage"
    and "RemoteAddr (Conn message) = a"
    and "map_of (clients s) a = Some client"
    and "passedTime = Sub (Now reading) (LastMessage client)"
  shows "(\<not> (TimedOut client \<and> passedTime < TimeoutDuration * Second)
          \<and> passedTime < MessageDebounce * Second \<and> Strikes client = 0 \<longrightarrow>
          server_step reading later picks s message =
            (s\<lparr>clients := AList.update a
                  (client\<lparr>Strikes := 1, TimedOut := True, LastMessage := Now later\<rparr>) (clients s)\<rparr>,
             [Log (''Info: timeout client '' @ a @ '' for 5.000000. number strikes: 1''),
              Write (ClientConn client) (Bytes ''Strike number 1. You are timed out. Wait for 5'')]))
       \<and> (TimedOut client \<and> passedTime < TimeoutDuration * Second \<longrightarrow>
          server_step reading later picks s message =
            (s, [Log (''Info: client '' @ a @ '' still banned''),
                 Write (ClientConn client) (Chill (TimeoutDuration * Second - passedTime))]))
       \<and> (\<not> (TimedOut client \<and> passedTime < TimeoutDuration * Second)
          \<and> passedTime < MessageDebounce * Second \<and> Strikes client = 1 \<longrightarrow>
          server_step reading later picks s message =
            (s\<lparr>clients := AList.update a
                  (client\<lparr>Strikes := 2, TimedOut := True, LastMessage := Now later\<rparr>) (clients s)\<rparr>,
             [Log (''Info: timeout client '' @ a @ '' for 5.000000. number strikes: 2''),
              Write (ClientConn client) (Bytes ''Strike number 2. You are timed out. Wait for 5'')]))
       \<and> (\<not> (TimedOut client \<and> passedTime < TimeoutDuration * Second)
          \<and> passedTime < MessageDebounce * Second \<and> Strikes client = 2 \<longrightarrow>
          server_step reading later picks s message =
            (s\<lparr>clients := AList.delete a (clients s),
               bannedClients := (bannedClients s)(a \<mapsto> True)\<rparr>,
             [Write (ClientConn client) (Bytes ''you are banned. bye bye''),
              Close (ClientConn client)]))"
proof -
  have known: "map_of (clients s) (RemoteAddr (Conn message)) = Some client"
    using assms(2,3) by simp
  have open_flag: "\<not> TimedOut client"
    if "\<not> (TimedOut client \<and> passedTime < TimeoutDuration * Second)"
      and "passedTime < MessageDebounce * Second"
    using that not_late_and_early[of passedTime] by auto
  have violation: "server_step reading later picks s message =
      debounce later picks s a client passedTime (Text message)"
    if "\<not> (TimedOut client \<and> passedTime < TimeoutDuration * Second)"
      and "passedTime < MessageDebounce * Second"
    using open_flag[OF that] assms(2,4) by (simp add: step_known[OF assms(1) known])
  have five: "Itoa TimeoutDuration = ''5''"
    and one: "Itoa 1 = ''1''" and two: "Itoa 2 = ''2''"
    by (simp_all add: Itoa_def TimeoutDuration_def digit_def)
  have first: "debounce later picks s a client passedTime (Text message) =
            (s\<lparr>clients := AList.update a
                  (client\<lparr>Strikes := 1, TimedOut := True, LastMessage := Now later\<rparr>) (clients s)\<rparr>,
             [Log (''Info: timeout client '' @ a @ '' for 5.000000. number strikes: 1''),
              Write (ClientConn client) (Bytes ''Strike number 1. You are timed out. Wait for 5'')])"
    if "passedTime < MessageDebounce * Second" and "Strikes client = 0"
    using that by (simp add: debounce_def Let_def wrap64_def five one two)
  have second: "debounce later picks s a client passedTime (Text message) =
            (s\<lparr>clients := AList.update a
                  (client\<lparr>Strikes := 2, TimedOut := True, LastMessage := Now later\<rparr>) (clients s)\<rparr>,
             [Log (''Info: timeout client '' @ a @ '' for 5.000000. number strikes: 2''),
              Write (ClientConn client) (Bytes ''Strike number 2. You are timed out. Wait for 5'')])"
    if "passedTime < MessageDebounce * Second" and "Strikes client = 1"
    using that by (simp add: debounce_def Let_def wrap64_def five one two)
  have third: "debounce later picks s a client passedTime (Text message) =
            (s\<lparr>clients := AList.delete a (clients s),
               bannedClients := (bannedClients s)(a \<mapsto> True)\<rparr>,
             [Write (ClientConn client) (Bytes ''you are banned. bye bye''),
              Close (ClientConn client)])"
    if "passedTime < MessageDebounce * Second" and "Strikes client = 2"
    using that by (simp add: debounce_def Let_def wrap64_def)
  have waiting: "server_step reading later picks s message =
            (s, [Log (''Info: client '' @ a @ '' still banned''),
                 Write (ClientConn client) (Chill (TimeoutDuration * Second - passedTime))])"
    if "TimedOut client \<and> passedTime < TimeoutDuration * Second"
    using that assms(2,4) by (simp add: step_known[OF assms(1) known])
  from violation first second third waiting show ?thesis
    by presburger
qed

theorem strike_escalation_witness:
  "(\<not> (TimedOut (snd (member alice 1000 False 0)) \<and> 200000000 < TimeoutDuration * Second)
      \<and> 200000000 < MessageDebounce * Second \<and> Strikes (snd (member alice 1000 False 0)) = 0)
   \<and> server_step (clock 1200) (clock 1200) [] (server initial lobby) (says alice ''yo'') =
       (server initial strike_one,
        [Log ''Info: timeout client 10.0.0.7:50412 for 5.000000. number strikes: 1'',
         Write alice (Bytes ''Strike number 1. You are timed out. Wait for 5'')])
   \<and> (TimedOut (snd (member alice 1200 True 1)) \<and> 300000000 < TimeoutDuration * Second)
   \<and> server_step (clock 1500) (clock 1500) [] (server initial strike_one) (says alice ''again'') =
       (server initial strike_one,
        [Log ''Info: client 10.0.0.7:50412 still banned'', Write alice (Chill 4700000000)])
   \<and> (\<not> (TimedOut (snd (member alice 7000 False 1)) \<and> 300000000 < TimeoutDuration * Second)
      \<and> 300000000 < MessageDebounce * Second \<and> Strikes (snd (member alice 7000 False 1)) = 1)
   \<and> server_step (clock 7300) (clock 7300) [] (server initial calm_one) (says alice ''more'') =
       (server initial strike_two,
        [Log ''Info: timeout client 10.0.0.7:50412 for 5.000000. number strikes: 2'',
         Write alice (Bytes ''Strike number 2. You are timed out. Wait for 5'')])
   \<and> (\<not> (TimedOut (snd (member alice 13000 False 2)) \<and> 400000000 < TimeoutDuration * Second)
      \<and> 400000000 < MessageDebounce * Second \<and> Strikes (snd (member alice 13000 False 2)) = 2)
   \<and> server_step (clock 13400) (clock 13400) [] (server initial calm_two) (says alice ''last'') =
       (server initial strike_three,
        [Write alice (Bytes ''you are banned. bye bye''), Close alice])"
proof -
  have kind: "Type (says alice t) = NewMessage"
    and sender: "RemoteAddr (Conn (says alice t)) = RemoteAddr alice" for t
    by (simp_all add: says_def)
  have known_a: "map_of (clients (server initial lobby)) (RemoteAddr alice)
      = Some (snd (member alice 1000 False 0))"
    by (simp add: after_lobby session_defs)
  have passed_a: "200000000 = Sub (Now (clock 1200)) (LastMessage (snd (member alice 1000 False 0)))"
    by (simp add: session_defs step_defs)
  have case_a: "\<not> (TimedOut (snd (member alice 1000 False 0)) \<and> 200000000 < TimeoutDuration * Second)
      \<and> 200000000 < MessageDebounce * Second \<and> Strikes (snd (member alice 1000 False 0)) = 0"
    by (simp add: member_def MessageDebounce_def Second_def)
  from strike_escalation [OF kind [of "''yo''"] sender [of "''yo''"] known_a passed_a,
      where later = "clock 1200" and picks = "[]"] case_a
  have "server_step (clock 1200) (clock 1200) [] (server initial lobby) (says alice ''yo'') =
      (server initial lobby\<lparr>clients := AList.update (RemoteAddr alice)
          ((snd (member alice 1000 False 0))
             \<lparr>Strikes := 1, TimedOut := True, LastMessage := Now (clock 1200)\<rparr>)
          (clients (server initial lobby))\<rparr>,
       [Log (''Info: timeout client '' @ RemoteAddr alice @ '' for 5.000000. number strikes: 1''),
        Write (ClientConn (snd (member alice 1000 False 0)))
          (Bytes ''Strike number 1. You are timed out. Wait for 5'')])"
    by blast
  then have step_a: "server_step (clock 1200) (clock 1200) [] (server initial lobby) (says alice ''yo'') =
       (server initial strike_one,
        [Log ''Info: timeout client 10.0.0.7:50412 for 5.000000. number strikes: 1'',
         Write alice (Bytes ''Strike number 1. You are timed out. Wait for 5'')])"
    by (simp add: after_lobby after_strike_one member_def newcomer_def alice_def)
  have known_b: "map_of (clients (server initial strike_one)) (RemoteAddr alice)
      = Some (snd (member alice 1200 True 1))"
    by (simp add: after_strike_one session_defs)
  have passed_b: "300000000 = Sub (Now (clock 1500)) (LastMessage (snd (member alice 1200 True 1)))"
    by (simp add: session_defs step_defs)
  have case_b: "TimedOut (snd (member alice 1200 True 1)) \<and> 300000000 < TimeoutDuration * Second"
    by (simp add: member_def TimeoutDuration_def Second_def)
  from strike_escalation [OF kind [of "''again''"] sender [of "''again''"] known_b passed_b,
      where later = "clock 1500" and picks = "[]"] case_b
  have "server_step (clock 1500) (clock 1500) [] (server initial strike_one) (says alice ''again'') =
      (server initial strike_one,
       [Log (''Info: client '' @ RemoteAddr alice @ '' still banned''),
        Write (ClientConn (snd (member alice 1200 True 1)))
          (Chill (TimeoutDuration * Second - 300000000))])"
    by blast
  then have step_b: "server_step (clock 1500) (clock 1500) [] (server initial strike_one)
        (says alice ''again'') =
       (server initial strike_one,
        [Log ''Info: client 10.0.0.7:50412 still banned'', Write alice (Chill 4700000000)])"
    by (simp add: member_def alice_def TimeoutDuration_def Second_def)
  have known_c: "map_of (clients (server initial calm_one)) (RemoteAddr alice)
      = Some (snd (member alice 7000 False 1))"
    by (simp add: after_calm_one session_defs)
  have passed_c: "300000000 = Sub (Now (clock 7300)) (LastMessage (snd (member alice 7000 False 1)))"
    by (simp add: session_defs step_defs)
  have case_c: "\<not> (TimedOut (snd (member alice 7000 False 1)) \<and> 300000000 < TimeoutDuration * Second)
      \<and> 300000000 < MessageDebounce * Second \<and> Strikes (snd (member alice 7000 False 1)) = 1"
    by (simp add: member_def MessageDebounce_def Second_def)
  from strike_escalation [OF kind [of "''more''"] sender [of "''more''"] known_c passed_c,
      where later = "clock 7300" and picks = "[]"] case_c
  have "server_step (clock 7300) (clock 7300) [] (server initial calm_one) (says alice ''more'') =
      (server initial calm_one\<lparr>clients := AList.update (RemoteAddr alice)
          ((snd (member alice 7000 False 1))
             \<lparr>Strikes := 2, TimedOut := True, LastMessage := Now (clock 7300)\<rparr>)
          (clients (server initial calm_one))\<rparr>,
       [Log (''Info: timeout client '' @ RemoteAddr alice @ '' for 5.000000. number strikes: 2''),
        Write (ClientConn (snd (member alice 7000 False 1)))
          (Bytes ''Strike number 2. You are timed out. Wait for 5'')])"
    by blast
  then have step_c: "server_step (clock 7300) (clock 7300) [] (server initial calm_one)
        (says alice ''more'') =
       (server initial strike_two,
        [Log ''Info: timeout client 10.0.0.7:50412 for 5.000000. number strikes: 2'',
         Write alice (Bytes ''Strike number 2. You are timed out. Wait for 5'')])"
    by (simp add: after_calm_one after_strike_two member_def newcomer_def alice_def)
  have known_d: "map_of (clients (server initial calm_two)) (RemoteAddr alice)
      = Some (snd (member alice 13000 False 2))"
    by (simp add: after_calm_two session_defs)
  have passed_d: "400000000 = Sub (Now (clock 13400)) (LastMessage (snd (member alice 13000 False 2)))"
    by (simp add: session_defs step_defs)
  have case_d: "\<not> (TimedOut (snd (member alice 13000 False 2)) \<and> 400000000 < TimeoutDuration * Second)
      \<and> 400000000 < MessageDebounce * Second \<and> Strikes (snd (member alice 13000 False 2)) = 2"
    by (simp add: member_def MessageDebounce_def Second_def)
  from strike_escalation [OF kind [of "''last''"] sender [of "''last''"] known_d passed_d,
      where later = "clock 13400" and picks = "[]"] case_d
  have "server_step (clock 13400) (clock 13400) [] (server initial calm_two) (says alice ''last'') =
      (server initial calm_two\<lparr>clients := AList.delete (RemoteAddr alice)
            (clients (server initial calm_two)),
          bannedClients := (bannedClients (server initial calm_two))(RemoteAddr alice \<mapsto> True)\<rparr>,
       [Write (ClientConn (snd (member alice 13000 False 2))) (Bytes ''you are banned. bye bye''),
        Close (ClientConn (snd (member alice 13000 False 2)))])"
    by blast
  then have step_d: "server_step (clock 13400) (clock 13400) [] (server initial calm_two)
        (says alice ''last'') =
       (server initial strike_three,
        [Write alice (Bytes ''you are banned. bye bye''), Close alice])"
    by (simp add: after_calm_two after_strike_three member_def newcomer_def alice_def bob_def)
  from case_a step_a case_b step_b case_c step_c case_d step_d show ?thesis by blast
qed

end
